theory Spec2Isabelle
  imports Complex_Main "HOL-Library.Word" "HOL-Library.Signed_Division" "HOL-Library.Log_Nat"
begin

unbundle bit_operations_syntax

section \<open>The HX-20 tape encoder (hx20tape.cpp) as HOL functions\<close>

text \<open>
  The encoder class \<^verbatim>\<open>HX20TapeEncoder\<close> has one field, the sample buffer
  \<^verbatim>\<open>std::vector<uint8_t> audioData\<close>. Every member function that writes to it is
  modelled as a function that takes the buffer as its last argument and returns the new
  buffer. \<^verbatim>\<open>uint8_t\<close> is \<open>8 word\<close>, \<^verbatim>\<open>uint16_t\<close> is \<open>16 word\<close>, a C++ \<^verbatim>\<open>int\<close> is
  \<open>int\<close> (division is the truncating \<open>sdiv\<close>, remainder \<open>smod\<close>, where an operand can be
  negative), \<^verbatim>\<open>size_t\<close> is \<open>nat\<close>, \<^verbatim>\<open>std::string\<close> is \<open>string\<close>, and \<^verbatim>\<open>double\<close> is
  \<open>real\<close> (with the rounding of the operations as said at each place). The diagnostic
  dump of \<^verbatim>\<open>addBlock\<close> (flag \<^verbatim>\<open>DEBUG\<close>) and the message of \<^verbatim>\<open>normalizeAudio\<close> only
  print; they do not touch the buffer and are left out.
\<close>

type_synonym u8 = "8 word"
type_synonym u16 = "16 word"
type_synonym audio = "u8 list"

subsection \<open>Constants\<close>

definition KERMIT :: bool where
  "KERMIT = True"

definition SAMPLE_RATE :: int where
  "SAMPLE_RATE = 11025"

definition DC_OFFSET :: u8 where
  "DC_OFFSET = 129"

definition AMPLITUDE :: real where
  "AMPLITUDE = 1.0"

definition PULSE_SHORT :: int where
  "PULSE_SHORT = 545"

definition PULSE_LONG :: int where
  "PULSE_LONG = 1080"

definition SYNC_BITS :: nat where
  "SYNC_BITS = 80"

definition DATA_BLOCK_SIZE :: nat where
  "DATA_BLOCK_SIZE = 256"

datatype BasicType = ASCII | TOKEN | SEQUENTIAL | BINARY

subsection \<open>Pulse encoder\<close>

text \<open>
  The conversion \<^verbatim>\<open>(uint8_t)value\<close> of a double truncates towards zero.
\<close>

definition to_uint8 :: "real \<Rightarrow> u8" where
  "to_uint8 v = word_of_int (if v < 0 then \<lceil>v\<rceil> else \<lfloor>v\<rfloor>)"

text \<open>
  The bodies of the two loops of \<^verbatim>\<open>addPulse\<close>: sample \<open>i\<close> of the rising half and of
  the falling half. The hyperbolic tangent stays strictly between -1 and 1 and is 0 only
  at \<open>t = 1/2\<close>, where the double computation is exact as well, so the byte obtained
  is the same for the double and for the real number.
\<close>

definition risingValue :: "int \<Rightarrow> int \<Rightarrow> u8" where
  "risingValue halfSamples i =
     (let t = real_of_int i / real_of_int halfSamples;
          v = real (unat DC_OFFSET) + AMPLITUDE * tanh (4.0 * (t - 0.5))
      in to_uint8 v)"

definition fallingValue :: "int \<Rightarrow> int \<Rightarrow> u8" where
  "fallingValue halfSamples i =
     (let t = real_of_int i / real_of_int halfSamples;
          v = real (unat DC_OFFSET) - AMPLITUDE * tanh (4.0 * (t - 0.5))
      in to_uint8 v)"

text \<open>
  \<^verbatim>\<open>addPulse(int durationUs)\<close>. The product \<^verbatim>\<open>durationUs * SAMPLE_RATE\<close> is a C++
  \<^verbatim>\<open>int\<close>; it stays below \<open>2^31\<close> for the two durations the encoder uses, and the
  theorems about other durations assume that range. A loop
  \<^verbatim>\<open>for (int i = 0; i < halfSamples; i++)\<close> runs \<open>nat halfSamples\<close> times (not at all
  when \<open>halfSamples \<le> 0\<close>).
\<close>

definition addPulse :: "int \<Rightarrow> audio \<Rightarrow> audio" where
  "addPulse durationUs audioData =
     (let samples = (durationUs * SAMPLE_RATE) sdiv 1000000;
          halfSamples = samples sdiv 2;
          a1 = foldl (\<lambda>a i. a @ [risingValue halfSamples (int i)]) audioData
                 [0..<nat halfSamples];
          a2 = foldl (\<lambda>a i. a @ [fallingValue halfSamples (int i)]) a1
                 [0..<nat halfSamples]
      in a2)"

definition addBit :: "bool \<Rightarrow> audio \<Rightarrow> audio" where
  "addBit b audioData =
     (if b then addPulse PULSE_LONG audioData else addPulse PULSE_SHORT audioData)"

definition addByte :: "u8 \<Rightarrow> audio \<Rightarrow> audio" where
  "addByte byte audioData =
     (let a = foldl (\<lambda>a i. addBit (drop_bit i byte AND 1 \<noteq> 0) a) audioData [0..<8]
      in addBit True a)"

definition addSyncField :: "audio \<Rightarrow> audio" where
  "addSyncField audioData = foldl (\<lambda>a i. addBit False a) audioData [0..<SYNC_BITS]"

definition addPreamble :: "audio \<Rightarrow> audio" where
  "addPreamble audioData = addByte 0xAA (addByte 0xFF (addBit True audioData))"

definition addPostamble :: "audio \<Rightarrow> audio" where
  "addPostamble audioData = addByte 0x00 (addByte 0xAA audioData)"

definition addFileGap :: "audio \<Rightarrow> audio" where
  "addFileGap audioData = foldl (\<lambda>a i. addByte 0xFF a) audioData [0..<614]"

definition addInterblockGap :: "int \<Rightarrow> audio \<Rightarrow> audio" where
  "addInterblockGap bytes audioData =
     foldl (\<lambda>a i. addByte 0xFF a) audioData [0..<nat bytes]"

subsection \<open>Checksum engine\<close>

text \<open>
  In C++ the operands of \<^verbatim>\<open>^\<close>, \<^verbatim>\<open><<\<close>, \<^verbatim>\<open>>>\<close> and \<^verbatim>\<open>&\<close> are promoted to
  \<^verbatim>\<open>int\<close> (32 bits); the assignment to \<^verbatim>\<open>uint16_t crc\<close> keeps the low 16 bits.
  The model computes in \<open>32 word\<close> and converts back with \<open>ucast\<close>.
\<close>

definition crc_round :: "u16 \<Rightarrow> u16" where
  "crc_round crc =
     (if (ucast crc :: 32 word) AND 0x8000 \<noteq> 0
      then ucast (push_bit 1 (ucast crc :: 32 word) XOR 0x1021)
      else ucast (push_bit 1 (ucast crc :: 32 word)))"

definition calculateCRC :: "u8 list \<Rightarrow> u16" where
  "calculateCRC data =
     foldl (\<lambda>crc byte.
        let crc = ucast ((ucast crc :: 32 word) XOR push_bit 8 (ucast byte :: 32 word))
        in foldl (\<lambda>crc i. crc_round crc) crc [0..<8])
       0xFFFF data"

definition kermit_round :: "u16 \<Rightarrow> u16" where
  "kermit_round crc =
     (if (ucast crc :: 32 word) AND 0x0001 \<noteq> 0
      then ucast (drop_bit 1 (ucast crc :: 32 word) XOR 0x8408)
      else ucast (drop_bit 1 (ucast crc :: 32 word)))"

definition calculateCRC_Kermit :: "u8 list \<Rightarrow> u16" where
  "calculateCRC_Kermit data =
     foldl (\<lambda>crc byte.
        let crc = ucast ((ucast crc :: 32 word) XOR (ucast byte :: 32 word))
        in foldl (\<lambda>crc i. kermit_round crc) crc [0..<8])
       0x0000 data"

subsection \<open>Block framer\<close>

text \<open>
  The vector \<^verbatim>\<open>blockData\<close> that \<^verbatim>\<open>addBlock\<close> builds before it writes anything: the
  identification field, the data and the check value. The macro \<^verbatim>\<open>KERMIT\<close> selects
  the check; it is the first argument here, and \<open>addBlock\<close> passes the macro's value.
\<close>

definition blockBytes :: "bool \<Rightarrow> char \<Rightarrow> u16 \<Rightarrow> u8 \<Rightarrow> u8 list \<Rightarrow> u8 list" where
  "blockBytes kermit blockType blockNumber blockID data =
     (let blockData = [];
          blockData = blockData @ [of_char blockType];
          blockData = blockData @ [ucast ((drop_bit 8 (ucast blockNumber :: 32 word)) AND 0xFF)];
          blockData = blockData @ [ucast ((ucast blockNumber :: 32 word) AND 0xFF)];
          blockData = blockData @ [blockID];
          blockData = blockData @ data;
          crc = (if kermit then calculateCRC_Kermit blockData else calculateCRC blockData);
          blockData = blockData @ [ucast ((ucast crc :: 32 word) AND 0xFF)];
          blockData = blockData @ [ucast ((drop_bit 8 (ucast crc :: 32 word)) AND 0xFF)]
      in blockData)"

definition addBlock :: "char \<Rightarrow> u16 \<Rightarrow> u8 \<Rightarrow> u8 list \<Rightarrow> audio \<Rightarrow> audio" where
  "addBlock blockType blockNumber blockID data audioData =
     (let blockData = blockBytes KERMIT blockType blockNumber blockID data;
          a = addSyncField audioData;
          a = addPreamble a;
          a = foldl (\<lambda>a byte. addByte byte a) a blockData;
          a = addPostamble a
      in addInterblockGap 100 a)"

subsection \<open>Metadata builder\<close>

text \<open>
  The fields of \<^verbatim>\<open>struct tm\<close> that the builder reads. The value that
  \<^verbatim>\<open>localtime(&now)\<close> returns is an argument of the model: the clock is the only input
  of the builder that is not a parameter of the C++ function.
\<close>

record tm =
  tm_sec :: int
  tm_min :: int
  tm_hour :: int
  tm_mday :: int
  tm_mon :: int
  tm_year :: int

fun decimal :: "nat \<Rightarrow> string" where
  "decimal n =
     (if n < 10 then [char_of (48 + n)]
      else decimal (n div 10) @ [char_of (48 + n mod 10)])"

text \<open>The conversion \<^verbatim>\<open>%02d\<close> of printf: at least two characters, padded with a zero.\<close>

definition fmt_02d :: "int \<Rightarrow> string" where
  "fmt_02d x =
     (let s = (if x < 0 then CHR ''-'' # decimal (nat (- x)) else decimal (nat x))
      in if length s < 2 then CHR ''0'' # s else s)"

text \<open>
  \<^verbatim>\<open>snprintf(buf, 7, "%02d%02d%02d", a, b, c)\<close>: at most six characters are stored
  (followed by the terminator).
\<close>

definition snprintf_3x02d :: "int \<Rightarrow> int \<Rightarrow> int \<Rightarrow> string" where
  "snprintf_3x02d a b c = take 6 (fmt_02d a @ fmt_02d b @ fmt_02d c)"

text \<open>
  The loops \<^verbatim>\<open>for (i = 0; i < n; i++) header[off + i] = s[i];\<close> of the builder. In
  every call \<open>n\<close> is at most the length of \<open>s\<close> and \<open>off + n\<close> at most 80, so each
  read and each write is within range, as all the single writes \<^verbatim>\<open>header[k] = v\<close> are.
\<close>

definition copyChars :: "nat \<Rightarrow> string \<Rightarrow> nat \<Rightarrow> u8 list \<Rightarrow> u8 list" where
  "copyChars off s n header = foldl (\<lambda>h i. h[off + i := of_char (s ! i)]) header [0..<n]"

definition createHeaderData :: "string \<Rightarrow> BasicType \<Rightarrow> tm \<Rightarrow> u8 list" where
  "createHeaderData filename type t =
     (let header = replicate 80 (0x20 :: u8);
          header = header[0 := of_char CHR ''H''];
          header = header[1 := of_char CHR ''D''];
          header = header[2 := of_char CHR ''R''];
          header = header[3 := of_char CHR ''1''];
          header = copyChars 4 filename (min 8 (length filename)) header;
          header = header[19 := 0x00];
          header = header[18 := 0x00];
          header = header[17 := 0x00];
          header = header[16 := 0x00];
          header = header[15 := 0x00];
          header = (case type of
             ASCII \<Rightarrow> header[16 := 0xFF, 17 := 0xFF]
           | TOKEN \<Rightarrow> header[16 := 0x00, 17 := 0x00]
           | SEQUENTIAL \<Rightarrow> header[15 := 0x01, 16 := 0xFF, 17 := 0xFF]
           | BINARY \<Rightarrow> header[15 := 0x02]);
          header = header[20 := of_char CHR ''2''];
          header = header[21 := of_char CHR ''S''];
          header = header[22 := of_char CHR '' ''];
          header = header[23 := of_char CHR '' ''];
          header = header[24 := of_nat ((DATA_BLOCK_SIZE div 100) mod 10 + 48)];
          header = header[25 := of_nat ((DATA_BLOCK_SIZE div 10) mod 10 + 48)];
          header = header[26 := of_nat (DATA_BLOCK_SIZE mod 10 + 48)];
          dateStr = snprintf_3x02d (tm_mon t + 1) (tm_mday t) (tm_year t smod 100);
          header = copyChars 32 dateStr 6 header;
          timeStr = snprintf_3x02d (tm_hour t) (tm_min t) (tm_sec t);
          header = copyChars 38 timeStr 6 header;
          header = header[50 := of_char CHR ''0''];
          header = header[51 := of_char CHR ''1''];
          header = copyChars 52 ''HX-20   '' 8 header
      in header)"

definition createFooterData :: "string \<Rightarrow> BasicType \<Rightarrow> tm \<Rightarrow> u8 list" where
  "createFooterData filename type t =
     (let header = replicate 80 (0x20 :: u8);
          header = header[0 := of_char CHR ''E''];
          header = header[1 := of_char CHR ''O''];
          header = header[2 := of_char CHR ''F''];
          header = header[3 := of_char CHR ''D''];
          header = copyChars 4 filename (min 8 (length filename)) header;
          header = header[19 := 0x00];
          header = header[18 := 0x00];
          header = header[17 := 0x00];
          header = header[16 := 0x00];
          header = header[15 := 0x00];
          header = (case type of
             ASCII \<Rightarrow> header[16 := 0xFF, 17 := 0xFF]
           | TOKEN \<Rightarrow> header[16 := 0x00, 17 := 0x00]
           | SEQUENTIAL \<Rightarrow> header[15 := 0x01, 16 := 0xFF, 17 := 0xFF]
           | BINARY \<Rightarrow> header[15 := 0x02]);
          header = header[20 := of_char CHR ''2''];
          header = header[21 := of_char CHR ''S''];
          header = header[22 := of_char CHR '' ''];
          header = header[23 := of_char CHR '' ''];
          header = header[24 := of_nat ((DATA_BLOCK_SIZE div 100) mod 10 + 48)];
          header = header[25 := of_nat ((DATA_BLOCK_SIZE div 10) mod 10 + 48)];
          header = header[26 := of_nat (DATA_BLOCK_SIZE mod 10 + 48)];
          dateStr = snprintf_3x02d (tm_mon t + 1) (tm_mday t) (tm_year t smod 100);
          header = copyChars 32 dateStr 6 header;
          timeStr = snprintf_3x02d (tm_hour t) (tm_min t) (tm_sec t);
          header = copyChars 38 timeStr 6 header;
          header = header[50 := of_char CHR ''0''];
          header = header[51 := of_char CHR ''1''];
          header = copyChars 52 ''HX-20   '' 8 header
      in header)"

subsection \<open>Program encoder\<close>



subsection \<open>Amplitude normalizer\<close>

text \<open>The first loop of \<^verbatim>\<open>normalizeAudio\<close>: the least and the greatest sample.\<close>

definition minMax :: "audio \<Rightarrow> u8 \<times> u8" where
  "minMax audioData =
     foldl (\<lambda>(minVal, maxVal) sample.
        let minVal = (if sample < minVal then sample else minVal);
            maxVal = (if sample > maxVal then sample else maxVal)
        in (minVal, maxVal))
       (255, 0) audioData"

text \<open>
  A \<^verbatim>\<open>double\<close> is an IEEE 754 binary64 number: a sign, a significand of 53 bits and a
  power of two. An operation on doubles returns its exact result rounded to the nearest
  double, and of two nearest doubles the one with the even significand. \<open>double_round\<close>
  is this rounding, on the reals: \<open>binade x\<close> is the exponent \<open>e\<close> with
  \<open>2 powi e \<le> \<bar>x\<bar> < 2 powi (e + 1)\<close>, the doubles between these two powers are the
  multiples of \<open>2 powi (e - 52)\<close>, and \<open>round_even\<close> picks the nearest multiple (the next
  power of two, where it rounds up to it, is a double as well). The exponent of a double
  is bounded; the bounds are not modelled, so \<open>double_round\<close> is the rounding of the
  machine for the results that are 0 or of magnitude from \<open>2 powi - 1022\<close> to below
  \<open>2 powi 1024\<close>.
\<close>

definition round_even :: "real \<Rightarrow> int" where
  "round_even y =
     (let f = \<lfloor>y\<rfloor>; d = y - real_of_int f
      in if d < 1 / 2 then f else if 1 / 2 < d then f + 1 else if even f then f else f + 1)"

definition binade :: "real \<Rightarrow> int" where
  "binade x =
     (if 1 \<le> \<bar>x\<bar> then bitlen \<lfloor>\<bar>x\<bar>\<rfloor> - 1 else - bitlen (\<lceil>1 / \<bar>x\<bar>\<rceil> - 1))"

definition double_round :: "real \<Rightarrow> real" where
  "double_round x =
     (if x = 0 then 0
      else real_of_int (round_even (x / 2 powi (binade x - 52))) * 2 powi (binade x - 52))"

text \<open>
  \<^verbatim>\<open>normalizeAudio(double targetAmplitude)\<close>. The samples are promoted to \<^verbatim>\<open>int\<close>, and
  an \<^verbatim>\<open>int\<close> of this size is converted to a double without rounding; every division,
  subtraction, multiplication and addition of doubles rounds, and the constant
  \<^verbatim>\<open>0.1\<close> is the double nearest to one tenth. The target amplitude is a finite double;
  the only caller, \<^verbatim>\<open>saveToWAV\<close>, passes an \<^verbatim>\<open>int\<close> above 0, and then every result is
  0 or of a magnitude from \<open>2 powi - 60\<close> to below \<open>2 powi 40\<close>. The comparisons with 0 and
  255 are exact, and the conversion to \<^verbatim>\<open>uint8_t\<close> of a double from 0 to 255 cuts off
  its fraction.
\<close>

definition normalizeAudio :: "real \<Rightarrow> audio \<Rightarrow> audio" where
  "normalizeAudio targetAmplitude audioData =
     (if audioData = [] then audioData
      else
        let (minVal, maxVal) = minMax audioData;
            currentCenter = double_round (real_of_int (uint minVal + uint maxVal) / 2.0);
            currentAmplitude = double_round (real_of_int (uint maxVal - uint minVal) / 2.0)
        in if currentAmplitude < double_round 0.1 then audioData
           else
             let scale = double_round (targetAmplitude / currentAmplitude)
             in map (\<lambda>sample.
                   let centered = double_round (real_of_int (uint sample) - currentCenter);
                       scaled = double_round (centered * scale);
                       result = double_round (128.0 + scaled);
                       result = (if result < 0 then 0 else result);
                       result = (if result > 255 then 255 else result)
                   in to_uint8 result) audioData)"

section \<open>The descriptions of the specification\<close>

text \<open>
  The definitions of this section are not translations of code: they say, in the words
  of the specification, what the encoder is meant to write, and the theorems compare the
  functions above with them.
\<close>

subsection \<open>Bits on the tape\<close>

text \<open>The samples of a sequence of bit pulses, one call of \<open>addBit\<close> for each bit.\<close>

definition pulses :: "bool list \<Rightarrow> audio" where
  "pulses bs = foldl (\<lambda>a b. addBit b a) [] bs"

text \<open>A byte frame: the eight data bits, least significant first, and the stop bit.\<close>

definition byteBits :: "u8 \<Rightarrow> bool list" where
  "byteBits byte = map (bit byte) [0..<8] @ [True]"

definition syncBits :: "bool list" where
  "syncBits = replicate 80 False"

definition preambleBits :: "bool list" where
  "preambleBits = [True] @ byteBits 0xFF @ byteBits 0xAA"

definition postambleBits :: "bool list" where
  "postambleBits = byteBits 0xAA @ byteBits 0x00"

definition gapBits :: "nat \<Rightarrow> bool list" where
  "gapBits n = concat (replicate n (byteBits 0xFF))"

text \<open>The number of samples in each half of a pulse, and the samples of a pulse.\<close>

definition halfCount :: "int \<Rightarrow> int" where
  "halfCount d = ((d * SAMPLE_RATE) sdiv 1000000) sdiv 2"

definition pulseSamples :: "int \<Rightarrow> audio" where
  "pulseSamples d =
     map (\<lambda>i. risingValue (halfCount d) (int i)) [0..<nat (halfCount d)]
     @ map (\<lambda>i. fallingValue (halfCount d) (int i)) [0..<nat (halfCount d)]"

subsection \<open>Checksums\<close>

text \<open>
  The two conventions on 16-bit words, as the specification words them: the byte is
  combined with the high byte (CCITT) or the low byte (Kermit) of the accumulator, and
  eight rounds follow.
\<close>

definition xor_high_byte :: "u16 \<Rightarrow> u8 \<Rightarrow> u16" where
  "xor_high_byte acc b = word_cat ((ucast (drop_bit 8 acc) :: u8) XOR b) (ucast acc :: u8)"

definition ccitt_round_spec :: "u16 \<Rightarrow> u16" where
  "ccitt_round_spec acc = (if bit acc 15 then push_bit 1 acc XOR 0x1021 else push_bit 1 acc)"

definition crc_ccitt_spec :: "u8 list \<Rightarrow> u16" where
  "crc_ccitt_spec bytes =
     foldl (\<lambda>acc b. (ccitt_round_spec ^^ 8) (xor_high_byte acc b)) 0xFFFF bytes"

definition xor_low_byte :: "u16 \<Rightarrow> u8 \<Rightarrow> u16" where
  "xor_low_byte acc b = word_cat (ucast (drop_bit 8 acc) :: u8) ((ucast acc :: u8) XOR b)"

definition kermit_round_spec :: "u16 \<Rightarrow> u16" where
  "kermit_round_spec acc = (if bit acc 0 then drop_bit 1 acc XOR 0x8408 else drop_bit 1 acc)"

definition crc_kermit_spec :: "u8 list \<Rightarrow> u16" where
  "crc_kermit_spec bytes =
     foldl (\<lambda>acc b. (kermit_round_spec ^^ 8) (xor_low_byte acc b)) 0x0000 bytes"

subsection \<open>Frames\<close>

text \<open>
  The frame body of a block: type tag, sequence number with the high byte first, copy
  index, payload. The check value of a frame body under either convention.
\<close>

definition frameBody :: "char \<Rightarrow> u16 \<Rightarrow> u8 \<Rightarrow> u8 list \<Rightarrow> u8 list" where
  "frameBody blockType blockNumber blockID payload =
     [of_char blockType, ucast (drop_bit 8 blockNumber), ucast blockNumber, blockID] @ payload"

definition blockCheck :: "bool \<Rightarrow> u8 list \<Rightarrow> u16" where
  "blockCheck kermit body = (if kermit then calculateCRC_Kermit body else calculateCRC body)"


text \<open>The bits of one block write, in the order in which they are written.\<close>

definition blockBits :: "char \<Rightarrow> u16 \<Rightarrow> u8 \<Rightarrow> u8 list \<Rightarrow> bool list" where
  "blockBits blockType blockNumber blockID payload =
     syncBits @ preambleBits
     @ concat (map byteBits (blockBytes KERMIT blockType blockNumber blockID payload))
     @ postambleBits @ gapBits 100"

subsection \<open>Records\<close>

text \<open>The five bytes at offsets 15 to 19 of a header or footer record, for each file type.\<close>

definition typeFlags :: "BasicType \<Rightarrow> u8 list" where
  "typeFlags type =
     (case type of
        ASCII \<Rightarrow> [0x00, 0xFF, 0xFF, 0x00, 0x00]
      | TOKEN \<Rightarrow> [0x00, 0x00, 0x00, 0x00, 0x00]
      | SEQUENTIAL \<Rightarrow> [0x01, 0xFF, 0xFF, 0x00, 0x00]
      | BINARY \<Rightarrow> [0x02, 0x00, 0x00, 0x00, 0x00])"

text \<open>A clock reading for the examples: 2 January 2026, 03:04:05.\<close>

definition exampleClock :: tm where
  "exampleClock = \<lparr>tm_sec = 5, tm_min = 4, tm_hour = 3, tm_mday = 2, tm_mon = 0, tm_year = 126\<rparr>"

subsection \<open>The file on the tape\<close>








subsection \<open>Normalization\<close>

text \<open>
  The centre and the half range of a buffer, the clamp to the range of a sample, and the
  linear map of a sample: its distance from the centre, multiplied by the target
  amplitude divided by the half range, and 128 added. \<open>doubleValue\<close> is the same
  expression with the quotient, the product and the sum each rounded to a double, and
  \<open>rescale\<close> is the sample made of it.
\<close>

definition center :: "audio \<Rightarrow> real" where
  "center buf = (real (unat (Min (set buf))) + real (unat (Max (set buf)))) / 2"

definition halfRange :: "audio \<Rightarrow> real" where
  "halfRange buf = (real (unat (Max (set buf))) - real (unat (Min (set buf)))) / 2"

definition clamp255 :: "real \<Rightarrow> real" where
  "clamp255 x = min 255 (max 0 x)"

definition linearValue :: "real \<Rightarrow> audio \<Rightarrow> u8 \<Rightarrow> real" where
  "linearValue targetAmplitude buf s =
     128 + (real (unat s) - center buf) * (targetAmplitude / halfRange buf)"

definition doubleValue :: "real \<Rightarrow> audio \<Rightarrow> u8 \<Rightarrow> real" where
  "doubleValue targetAmplitude buf s =
     double_round (128 +
       double_round ((real (unat s) - center buf)
         * double_round (targetAmplitude / halfRange buf)))"

definition rescale :: "real \<Rightarrow> audio \<Rightarrow> u8 \<Rightarrow> u8" where
  "rescale targetAmplitude buf s = to_uint8 (clamp255 (doubleValue targetAmplitude buf s))"

section \<open>Pulse encoder\<close>

subsection \<open>Every writer appends\<close>

lemma foldl_push_back: "foldl (\<lambda>a i. a @ [f i]) a xs = a @ map f xs"
  by (induction xs arbitrary: a) auto

lemma addPulse_halves: "addPulse d a = a @ pulseSamples d"
  apply (simp only: addPulse_def Let_def foldl_push_back pulseSamples_def)
  apply (simp only: halfCount_def append_assoc)
  done

lemma addBit_append: "addBit b a = a @ addBit b []"
  by (cases b) (simp_all add: addBit_def addPulse_halves)

lemma pulses_Nil: "pulses [] = []"
  by (simp add: pulses_def)

lemma pulses_single: "pulses [b] = addBit b []"
  by (simp add: pulses_def)

lemma foldl_addBit: "foldl (\<lambda>a b. addBit b a) a bs = a @ pulses bs"
proof (induction bs arbitrary: a rule: rev_induct)
  case Nil
  show ?case by (simp add: pulses_Nil)
next
  case (snoc b bs)
  have "foldl (\<lambda>a b. addBit b a) a (bs @ [b]) = addBit b (a @ pulses bs)"
    by (simp add: snoc)
  also have "\<dots> = a @ pulses bs @ addBit b []"
    using addBit_append [of b "a @ pulses bs"] by simp
  also have "pulses bs @ addBit b [] = pulses (bs @ [b])"
    using addBit_append [of b "pulses bs"] by (simp add: pulses_def)
  finally show ?case .
qed

lemma pulses_append: "pulses (xs @ ys) = pulses xs @ pulses ys"
  using foldl_addBit [of "pulses xs" ys] by (simp add: pulses_def)

lemma pulses_Cons: "pulses (b # bs) = addBit b [] @ pulses bs"
  using pulses_append [of "[b]" bs] by (simp add: pulses_single)

subsection \<open>The samples of the two pulses\<close>

lemma to_uint8_floor: "0 \<le> v \<Longrightarrow> \<lfloor>v\<rfloor> = n \<Longrightarrow> to_uint8 v = word_of_int n"
  by (simp add: to_uint8_def)

lemma risingValue_closed:
  assumes "0 \<le> i" "i < h"
  shows "risingValue h i = (if 2 * i < h then 128 else 129)"
proof -
  define x where "x = tanh (4 * (real_of_int i / real_of_int h - 1/2))"
  have v: "risingValue h i = to_uint8 (129 + x)"
    by (simp add: risingValue_def DC_OFFSET_def AMPLITUDE_def x_def Let_def)
  have b: "-1 < x" "x < 1"
    unfolding x_def by (rule tanh_real_gt_neg1, rule tanh_real_lt_1)
  show ?thesis
  proof (cases "2 * i < h")
    case True
    have "real_of_int i / real_of_int h < 1/2"
      using True assms by (simp add: field_simps)
    then have "x < 0" by (simp add: x_def)
    with b have "\<lfloor>129 + x\<rfloor> = 128" "0 \<le> 129 + x" by linarith+
    then have "to_uint8 (129 + x) = word_of_int 128" using to_uint8_floor by blast
    with v True show ?thesis by simp
  next
    case False
    have "1/2 \<le> real_of_int i / real_of_int h"
      using False assms by (simp add: field_simps)
    then have "0 \<le> x" by (simp add: x_def)
    with b have "\<lfloor>129 + x\<rfloor> = 129" "0 \<le> 129 + x" by linarith+
    then have "to_uint8 (129 + x) = word_of_int 129" using to_uint8_floor by blast
    with v False show ?thesis by simp
  qed
qed

lemma fallingValue_closed:
  assumes "0 \<le> i" "i < h"
  shows "fallingValue h i = (if 2 * i \<le> h then 129 else 128)"
proof -
  define x where "x = tanh (4 * (real_of_int i / real_of_int h - 1/2))"
  have v: "fallingValue h i = to_uint8 (129 - x)"
    by (simp add: fallingValue_def DC_OFFSET_def AMPLITUDE_def x_def Let_def)
  have b: "-1 < x" "x < 1"
    unfolding x_def by (rule tanh_real_gt_neg1, rule tanh_real_lt_1)
  show ?thesis
  proof (cases "2 * i \<le> h")
    case True
    have "real_of_int i / real_of_int h \<le> 1/2"
      using True assms by (simp add: field_simps)
    then have "x \<le> 0" by (simp add: x_def)
    with b have "\<lfloor>129 - x\<rfloor> = 129" "0 \<le> 129 - x" by linarith+
    then have "to_uint8 (129 - x) = word_of_int 129" using to_uint8_floor by blast
    with v True show ?thesis by simp
  next
    case False
    have "1/2 < real_of_int i / real_of_int h"
      using False assms by (simp add: field_simps)
    then have "0 < x" by (simp add: x_def)
    with b have "\<lfloor>129 - x\<rfloor> = 128" "0 \<le> 129 - x" by linarith+
    then have "to_uint8 (129 - x) = word_of_int 128" using to_uint8_floor by blast
    with v False show ?thesis by simp
  qed
qed


lemma halfCount_short: "halfCount PULSE_SHORT = 3"
  by (simp add: halfCount_def PULSE_SHORT_def SAMPLE_RATE_def signed_divide_int_def)

lemma halfCount_long: "halfCount PULSE_LONG = 5"
  by (simp add: halfCount_def PULSE_LONG_def SAMPLE_RATE_def signed_divide_int_def)

lemma short_pulse_samples: "addBit False [] = [128, 128, 129, 129, 129, 128]"
  by (simp add: addBit_def addPulse_halves pulseSamples_def halfCount_short
      eval_nat_numeral risingValue_closed fallingValue_closed)

lemma long_pulse_samples:
  "addBit True [] = [128, 128, 128, 129, 129, 129, 129, 129, 128, 128]"
  by (simp add: addBit_def addPulse_halves pulseSamples_def halfCount_long
      eval_nat_numeral risingValue_closed fallingValue_closed)

lemma length_addBit: "length (addBit b []) = (if b then 10 else 6)"
  by (simp add: long_pulse_samples short_pulse_samples)





subsection \<open>The bit sequence is determined by the samples\<close>

lemma pulses_eq_Nil: "pulses bs = [] \<Longrightarrow> bs = []"
proof (cases bs)
  case Nil
  then show ?thesis by simp
next
  case (Cons b bs')
  assume "pulses bs = []"
  then have "addBit b [] = []" using Cons by (simp add: pulses_Cons)
  then show ?thesis by (cases b) (simp_all add: long_pulse_samples short_pulse_samples)
qed

lemma pulses_inj: "pulses bs = pulses bs' \<Longrightarrow> bs = bs'"
proof (induction bs arbitrary: bs')
  case Nil
  then show ?case using pulses_eq_Nil [of bs'] by (simp add: pulses_Nil)
next
  case (Cons b bs)
  show ?case
  proof (cases bs')
    case Nil
    then show ?thesis using Cons.prems pulses_eq_Nil [of "b # bs"] by (simp add: pulses_Nil)
  next
    case (Cons b' bs'')
    have e: "addBit b [] @ pulses bs = addBit b' [] @ pulses bs''"
      using Cons.prems Cons by (simp add: pulses_Cons)
    then have "b = b'"
      by (cases b; cases b') (simp_all add: long_pulse_samples short_pulse_samples)
    with e have "pulses bs = pulses bs''" by simp
    then show ?thesis using Cons.IH Cons \<open>b = b'\<close> by simp
  qed
qed

lemma inj_pulses: "inj pulses"
  by (rule injI) (rule pulses_inj)

lemma length_pulses_le: "length (pulses bs) \<le> 10 * length bs"
  by (induction bs) (simp_all add: pulses_Nil pulses_Cons length_addBit)

lemma length_pulses_ge: "6 * length bs \<le> length (pulses bs)"
  by (induction bs) (simp_all add: pulses_Nil pulses_Cons length_addBit)

subsection \<open>Bytes\<close>

lemma bit_test: "(drop_bit i (byte :: u8) AND 1 \<noteq> 0) = bit byte i"
  by (simp add: bit_iff_odd_drop_bit and_one_eq mod_2_eq_odd)

lemma addByte_foldl:
  "addByte byte a = foldl (\<lambda>a b. addBit b a) a (map (bit byte) [0..<8] @ [True])"
proof -
  have "foldl (\<lambda>a i. addBit (drop_bit i byte AND 1 \<noteq> 0) a) a xs =
        foldl (\<lambda>a b. addBit b a) a (map (bit byte) xs)" for xs a
    by (induction xs arbitrary: a) (simp_all add: bit_test)
  then show ?thesis by (simp only: addByte_def Let_def foldl_append foldl_Cons foldl_Nil)
qed

lemma addByte_pulses: "addByte byte a = a @ pulses (byteBits byte)"
  by (simp only: addByte_foldl foldl_addBit byteBits_def)

lemma length_byteBits: "length (byteBits b) = 9"
  by (simp add: byteBits_def)



section \<open>Checksum engine\<close>

lemma top_bit_test: "((ucast (crc :: u16) :: 32 word) AND 0x8000 \<noteq> 0) = bit crc 15"
proof -
  have "(ucast crc :: 32 word) AND 0x8000 = (ucast crc :: 32 word) AND push_bit 15 1" by simp
  also have "\<dots> \<noteq> 0 \<longleftrightarrow> bit (ucast crc :: 32 word) 15"
    by (simp only: and_exp_eq_0_iff_not_bit push_bit_of_1 not_not)
  finally show ?thesis by (simp add: bit_ucast_iff)
qed

lemma low_bit_test: "((ucast (crc :: u16) :: 32 word) AND 0x0001 \<noteq> 0) = bit crc 0"
proof -
  have "((ucast crc :: 32 word) AND 1 \<noteq> 0) = odd (ucast crc :: 32 word)"
    by (simp add: and_one_eq mod_2_eq_odd)
  also have "\<dots> = bit (ucast crc :: 32 word) 0" by (simp only: bit_0)
  also have "\<dots> = bit crc 0" by (simp add: bit_ucast_iff)
  finally show ?thesis by simp
qed

lemmas wbits =
  bit_word_ucast_iff bit_xor_iff bit_push_bit_iff bit_drop_bit_eq bit_word_cat_iff bit_and_iff

lemma bit_u16_less: "bit (w :: u16) k \<Longrightarrow> k < 16"
  using bit_imp_le_length [of w k] by simp

lemma shl_xor_trunc_gen:
  "(ucast (push_bit n (ucast (crc :: u16) :: 32 word) XOR c) :: u16) = push_bit n crc XOR ucast c"
  by (rule bit_word_eqI) (auto simp add: wbits)

lemma shl_trunc_gen:
  "(ucast (push_bit n (ucast (crc :: u16) :: 32 word)) :: u16) = push_bit n crc"
  by (rule bit_word_eqI) (auto simp add: wbits)

lemma shr_xor_trunc_gen:
  "(ucast (drop_bit n (ucast (crc :: u16) :: 32 word) XOR c) :: u16) =
     drop_bit n crc XOR ucast (c :: 32 word)"
  by (rule bit_word_eqI) (auto simp add: wbits dest: bit_u16_less)

lemma shr_trunc_gen:
  "(ucast (drop_bit n (ucast (crc :: u16) :: 32 word)) :: u16) = drop_bit n crc"
  by (rule bit_word_eqI) (auto simp add: wbits dest: bit_u16_less)

lemmas shl_xor_trunc = shl_xor_trunc_gen [where n = 1]
lemmas shl_trunc = shl_trunc_gen [where n = 1]
lemmas shr_xor_trunc = shr_xor_trunc_gen [where n = 1]
lemmas shr_trunc = shr_trunc_gen [where n = 1]

lemma crc_round_spec: "crc_round crc = ccitt_round_spec crc"
  unfolding crc_round_def ccitt_round_spec_def top_bit_test shl_xor_trunc shl_trunc by simp

lemma kermit_round_spec: "kermit_round crc = kermit_round_spec crc"
  unfolding kermit_round_def kermit_round_spec_def low_bit_test shr_xor_trunc shr_trunc by simp

lemma xor_high:
  "(ucast ((ucast (crc :: u16) :: 32 word) XOR push_bit 8 (ucast (byte :: u8) :: 32 word)) :: u16)
   = xor_high_byte crc byte"
  unfolding xor_high_byte_def
  by (rule bit_word_eqI) (auto simp add: wbits)

lemma xor_low:
  "(ucast ((ucast (crc :: u16) :: 32 word) XOR (ucast (byte :: u8) :: 32 word)) :: u16)
   = xor_low_byte crc byte"
  unfolding xor_low_byte_def
  by (rule bit_word_eqI) (auto simp add: wbits)

lemma foldl_const_funpow: "foldl (\<lambda>c i. f c) c [0..<n] = (f ^^ n) c"
  by (induction n) simp_all

lemma calculateCRC_spec: "calculateCRC bytes = crc_ccitt_spec bytes"
proof -
  have "(\<lambda>c. crc_round c) = ccitt_round_spec" by (rule ext) (rule crc_round_spec)
  then show ?thesis
    unfolding calculateCRC_def crc_ccitt_spec_def Let_def foldl_const_funpow xor_high by simp
qed

lemma calculateCRC_Kermit_spec: "calculateCRC_Kermit bytes = crc_kermit_spec bytes"
proof -
  have "(\<lambda>c. kermit_round c) = kermit_round_spec" by (rule ext) (rule kermit_round_spec)
  then show ?thesis
    unfolding calculateCRC_Kermit_def crc_kermit_spec_def Let_def foldl_const_funpow xor_low by simp
qed

text \<open>
  C2: for every byte sequence, the CCITT checksum is the result of starting from 0xFFFF
  and, for each byte, combining it with the high byte of the accumulator by exclusive or
  and doing eight rounds (top bit set: shift left and combine with 0x1021; else shift
  left); the Kermit checksum is the result of starting from 0x0000 and, for each byte,
  combining it with the low byte and doing eight rounds (low bit set: shift right and
  combine with 0x8408; else shift right). Both are functions of the byte sequence alone,
  with 16-bit values.
\<close>

theorem C2_checksums:
  "calculateCRC bytes = crc_ccitt_spec bytes
   \<and> calculateCRC_Kermit bytes = crc_kermit_spec bytes"
  by (simp only: calculateCRC_spec calculateCRC_Kermit_spec simp_thms)

text \<open>Known values of the two checksums.\<close>

lemma crc_empty: "calculateCRC [] = 0xFFFF" "calculateCRC_Kermit [] = 0x0000"
  by (simp_all add: calculateCRC_def calculateCRC_Kermit_def)

lemma crc_single_00: "calculateCRC [0x00] = 0xE1F0" "calculateCRC_Kermit [0x00] = 0x0000"
  by code_simp+

lemma crc_single_FF: "calculateCRC [0xFF] = 0xFF00" "calculateCRC_Kermit [0xFF] = 0x0F78"
  by code_simp+

lemma crc_check_values:
  "calculateCRC (map of_char ''123456789'') = 0x29B1"
  "calculateCRC_Kermit (map of_char ''123456789'') = 0x2189"
proof -
  have "crc_ccitt_spec (map of_char ''123456789'') = 0x29B1"
    by code_simp
  then show "calculateCRC (map of_char ''123456789'') = 0x29B1"
    by (simp only: calculateCRC_spec)
  have "crc_kermit_spec (map of_char ''123456789'') = 0x2189"
    by code_simp
  then show "calculateCRC_Kermit (map of_char ''123456789'') = 0x2189"
    by (simp only: calculateCRC_Kermit_spec)
qed

section \<open>Block framer\<close>

subsection \<open>The bytes of a frame\<close>

lemma mask_low_byte: "(ucast ((w :: 32 word) AND 0xFF) :: u8) = ucast w"
proof -
  have "w AND 0xFF = take_bit 8 w"
    by (simp add: take_bit_eq_mask mask_eq_exp_minus_1)
  then show ?thesis
    by (simp only:) (rule bit_word_eqI, auto simp add: bit_word_ucast_iff bit_take_bit_iff)
qed

lemma hi_byte:
  "(ucast (drop_bit 8 (ucast (n :: u16) :: 32 word) AND 0xFF) :: u8) = ucast (drop_bit 8 n)"
  unfolding mask_low_byte
  by (rule bit_word_eqI) (auto simp add: bit_word_ucast_iff bit_drop_bit_eq dest: bit_u16_less)

lemma lo_byte: "(ucast ((ucast (n :: u16) :: 32 word) AND 0xFF) :: u8) = ucast n"
  unfolding mask_low_byte
  by (rule bit_word_eqI) (auto simp add: bit_word_ucast_iff)

lemma blockBytes_eq:
  "blockBytes k t n c p =
     frameBody t n c p
     @ [ucast (blockCheck k (frameBody t n c p)),
        ucast (drop_bit 8 (blockCheck k (frameBody t n c p)))]"
  by (simp add: blockBytes_def frameBody_def blockCheck_def Let_def hi_byte lo_byte
      del: of_char_eq_iff)

lemma length_frameBody: "length (frameBody t n c p) = 4 + length p"
  by (simp add: frameBody_def)

lemma length_blockBytes: "length (blockBytes k t n c p) = length p + 6"
  by (simp add: blockBytes_eq length_frameBody)









subsection \<open>The bits of a block write\<close>

lemma foldl_addByte:
  "foldl (\<lambda>a byte. addByte byte a) a bytes = a @ pulses (concat (map byteBits bytes))"
  by (induction bytes arbitrary: a) (simp_all add: pulses_Nil addByte_pulses pulses_append)

lemma foldl_addByte_const:
  "foldl (\<lambda>a i. addByte b a) a [0..<n] = a @ pulses (concat (replicate n (byteBits b)))"
proof (induction n)
  case 0
  show ?case by (simp add: pulses_Nil)
next
  case (Suc n)
  have "concat (replicate (Suc n) (byteBits b)) = concat (replicate n (byteBits b)) @ byteBits b"
    by (induction n) simp_all
  then show ?case
    using Suc by (simp add: addByte_pulses pulses_append del: replicate_Suc)
qed

lemma foldl_addBit_const:
  "foldl (\<lambda>a i. addBit b a) a [0..<n] = a @ pulses (replicate n b)"
proof (induction n)
  case 0
  show ?case by (simp add: pulses_Nil)
next
  case (Suc n)
  have "foldl (\<lambda>a i. addBit b a) a [0..<Suc n] = addBit b (a @ pulses (replicate n b))"
    using Suc by simp
  also have "\<dots> = a @ pulses (replicate n b) @ pulses [b]"
    using addBit_append [of b "a @ pulses (replicate n b)"] by (simp add: pulses_single)
  also have "\<dots> = a @ pulses (replicate (Suc n) b)"
    by (simp only: pulses_append [symmetric] replicate_append_same) simp
  finally show ?case .
qed

lemma addSyncField_pulses: "addSyncField a = a @ pulses syncBits"
  by (simp add: addSyncField_def SYNC_BITS_def foldl_addBit_const syncBits_def)

lemma addPreamble_pulses: "addPreamble a = a @ pulses preambleBits"
  using addBit_append [of True a]
  by (simp add: addPreamble_def preambleBits_def addByte_pulses pulses_append pulses_Cons)

lemma addPostamble_pulses: "addPostamble a = a @ pulses postambleBits"
  by (simp add: addPostamble_def postambleBits_def addByte_pulses pulses_append)

lemma addFileGap_pulses: "addFileGap a = a @ pulses (gapBits 614)"
  by (simp add: addFileGap_def gapBits_def foldl_addByte_const)

lemma addInterblockGap_pulses: "addInterblockGap n a = a @ pulses (gapBits (nat n))"
  by (simp add: addInterblockGap_def gapBits_def foldl_addByte_const)

lemma addBlock_pulses: "addBlock t n c p a = a @ pulses (blockBits t n c p)"
  by (simp add: addBlock_def Let_def blockBits_def addSyncField_pulses addPreamble_pulses
      foldl_addByte addPostamble_pulses addInterblockGap_pulses pulses_append)

lemma length_gapBits: "length (gapBits n) = 9 * n"
  by (induction n) (simp_all add: gapBits_def length_byteBits)

lemma length_concat_byteBits: "length (concat (map byteBits bs)) = 9 * length bs"
  by (induction bs) (simp_all add: length_byteBits)

lemma length_syncBits: "length syncBits = 80"
  by (simp add: syncBits_def)

lemma length_preambleBits: "length preambleBits = 19"
  by (simp add: preambleBits_def length_byteBits)

lemma length_postambleBits: "length postambleBits = 18"
  by (simp add: postambleBits_def length_byteBits)

lemma length_blockBits:
  "length (blockBits t n c p) = 80 + 19 + 9 * (length (frameBody t n c p) + 2) + 18 + 900"
  by (simp add: blockBits_def length_syncBits length_preambleBits length_postambleBits
      length_gapBits length_concat_byteBits length_blockBytes length_frameBody)


text \<open>
  C4 (as amended): for every block written by \<open>addBlock\<close>, with a frame body of
  \<open>len\<close> bytes, the bit pulses appended by that one block write are, in order, the 80
  of the sync field, the 19 of the preamble, 9 for each of the \<open>len + 2\<close> bytes of frame
  body and check value, the 18 of the postamble, and the 900 of the inter-block gap of
  100 bytes with which every block write ends: \<open>80 + 19 + 9 * (len + 2) + 18 + 900\<close> in
  all. The samples determine the bit sequence.
\<close>

theorem C4_block_pulse_count:
  "addBlock blockType blockNumber blockID payload a =
     a @ pulses (syncBits @ preambleBits
                 @ concat (map byteBits (blockBytes KERMIT blockType blockNumber blockID payload))
                 @ postambleBits @ gapBits 100)
   \<and> length syncBits = 80
   \<and> length preambleBits = 19
   \<and> length (concat (map byteBits (blockBytes KERMIT blockType blockNumber blockID payload))) =
       9 * (length (frameBody blockType blockNumber blockID payload) + 2)
   \<and> length postambleBits = 18
   \<and> length (gapBits 100) = 900
   \<and> length (blockBits blockType blockNumber blockID payload) =
       80 + 19 + 9 * (length (frameBody blockType blockNumber blockID payload) + 2) + 18 + 900
   \<and> inj pulses"
proof -
  have 1: "addBlock blockType blockNumber blockID payload a =
     a @ pulses (syncBits @ preambleBits
                 @ concat (map byteBits (blockBytes KERMIT blockType blockNumber blockID payload))
                 @ postambleBits @ gapBits 100)"
    by (simp only: addBlock_pulses blockBits_def)
  have 2: "length (concat (map byteBits (blockBytes KERMIT blockType blockNumber blockID payload))) =
       9 * (length (frameBody blockType blockNumber blockID payload) + 2)"
    by (simp add: length_concat_byteBits length_blockBytes length_frameBody)
  have 3: "length (gapBits 100) = 900"
    by (simp add: length_gapBits)
  show ?thesis
    using 1 2 3
    by (simp only: length_syncBits length_preambleBits length_postambleBits length_blockBits
        inj_pulses simp_thms)
qed

text \<open>
  A header block with an empty payload has a frame body of 4 bytes; its block write is
  not a sequence of \<open>80 + 19 + 9 * (4 + 2) + 18 = 171\<close> bit pulses.
\<close>

theorem C4_counterexample:
  "\<not> (\<exists>bs. length bs = 80 + 19 + 9 * (length (frameBody CHR ''H'' 0 0 []) + 2) + 18
          \<and> addBlock CHR ''H'' 0 0 [] [] = pulses bs)"
proof
  assume "\<exists>bs. length bs = 80 + 19 + 9 * (length (frameBody CHR ''H'' 0 0 []) + 2) + 18
        \<and> addBlock CHR ''H'' 0 0 [] [] = pulses bs"
  then obtain bs where l: "length bs = 171" and e: "addBlock CHR ''H'' 0 0 [] [] = pulses bs"
    by (auto simp add: length_frameBody)
  have "length (addBlock CHR ''H'' 0 0 [] []) \<le> 1710"
    using length_pulses_le [of bs] l e by simp
  moreover have "6 * 1071 \<le> length (addBlock CHR ''H'' 0 0 [] [])"
    using length_pulses_ge [of "blockBits CHR ''H'' 0 0 []"]
    by (simp add: addBlock_pulses length_blockBits length_frameBody)
  ultimately show False by simp
qed

section \<open>Metadata builder\<close>

lemma length_copyChars [simp]: "length (copyChars off s n h) = length h"
proof -
  have "length (foldl (\<lambda>h i. h[off + i := of_char (s ! i)]) h xs) = length h" for xs
    by (induction xs arbitrary: h) simp_all
  then show ?thesis by (simp add: copyChars_def)
qed

lemma nth_copyChars_outside:
  "j < off \<or> off + n \<le> j \<Longrightarrow> copyChars off s n h ! j = h ! j"
proof -
  have "(\<forall>i \<in> set xs. off + i \<noteq> j) \<Longrightarrow> foldl (\<lambda>h i. h[off + i := of_char (s ! i)]) h xs ! j = h ! j" for xs
    by (induction xs arbitrary: h) simp_all
  from this [of "[0..<n]"] show "j < off \<or> off + n \<le> j \<Longrightarrow> copyChars off s n h ! j = h ! j"
    by (auto simp add: copyChars_def)
qed


lemma length_createHeaderData: "length (createHeaderData fn ty t) = 80"
  by (cases ty) (simp_all add: createHeaderData_def Let_def)

lemma length_createFooterData: "length (createFooterData fn ty t) = 80"
  by (cases ty) (simp_all add: createFooterData_def Let_def)

lemma take5_drop15:
  "length xs = 80 \<Longrightarrow> take 5 (drop 15 xs) = [xs ! 15, xs ! 16, xs ! 17, xs ! 18, xs ! 19]"
  by (rule nth_equalityI) (auto simp add: nth_Cons less_Suc_eq numeral_eq_Suc split: nat.splits)

lemma header_flags_nth:
  "map ((!) (createHeaderData fn ty t)) [15, 16, 17, 18, 19] = typeFlags ty"
  by (cases ty) (simp_all add: createHeaderData_def Let_def typeFlags_def nth_copyChars_outside)

lemma footer_flags_nth:
  "map ((!) (createFooterData fn ty t)) [15, 16, 17, 18, 19] = typeFlags ty"
  by (cases ty) (simp_all add: createFooterData_def Let_def typeFlags_def nth_copyChars_outside)

lemma header_flags: "take 5 (drop 15 (createHeaderData fn ty t)) = typeFlags ty"
  using header_flags_nth [of fn ty t] by (simp add: take5_drop15 length_createHeaderData)

lemma footer_flags: "take 5 (drop 15 (createFooterData fn ty t)) = typeFlags ty"
  using footer_flags_nth [of fn ty t] by (simp add: take5_drop15 length_createFooterData)

text \<open>
  C7: for every file name and every file type (and whatever the clock says), the header
  record has 80 bytes and its bytes at offsets 15 to 19 are exactly the pattern of the
  type: ASCII has 0xFF at 16 and 17; TOKEN has 0x00 at 16 and 17; SEQUENTIAL has 0x01 at
  15 and 0xFF at 16 and 17; BINARY has 0x02 at 15; every other byte of the five is 0x00.
  The footer record has the same five bytes.
\<close>

theorem C7_type_flags:
  "length (createHeaderData filename type t) = 80
   \<and> take 5 (drop 15 (createHeaderData filename type t)) = typeFlags type
   \<and> length (createFooterData filename type t) = 80
   \<and> take 5 (drop 15 (createFooterData filename type t)) = typeFlags type
   \<and> typeFlags ASCII = [0x00, 0xFF, 0xFF, 0x00, 0x00]
   \<and> typeFlags TOKEN = [0x00, 0x00, 0x00, 0x00, 0x00]
   \<and> typeFlags SEQUENTIAL = [0x01, 0xFF, 0xFF, 0x00, 0x00]
   \<and> typeFlags BINARY = [0x02, 0x00, 0x00, 0x00, 0x00]"
  by (simp add: length_createHeaderData length_createFooterData header_flags footer_flags)
     (simp add: typeFlags_def)

text \<open>The two records of a file named TEST, in full.\<close>

lemma header_record_example:
  "createHeaderData ''TEST'' ASCII exampleClock =
     map of_char ''HDR1TEST       '' @ [0x00, 0xFF, 0xFF, 0x00, 0x00]
     @ map of_char ''2S  256     010226030405      01HX-20   '' @ replicate 20 0x20"
  by code_simp

lemma footer_record_example:
  "createFooterData ''TEST'' TOKEN exampleClock =
     map of_char ''EOFDTEST       '' @ [0x00, 0x00, 0x00, 0x00, 0x00]
     @ map of_char ''2S  256     010226030405      01HX-20   '' @ replicate 20 0x20"
  by code_simp









section \<open>Program encoder\<close>











text \<open>
  The two bytes of the sequence field hold the number itself as long as it is below
  65536, that is for programs of up to 65534 chunks.
\<close>

lemma sequence_field_exact:
  "n < 65536 \<Longrightarrow> unat (word_of_int (int n) :: u16) = n"
  by (simp add: unat_of_nat take_bit_nat_eq_self)






section \<open>Amplitude normalizer\<close>

subsection \<open>Rounding to a double\<close>

text \<open>
  \<open>binade x\<close> is the exponent of \<open>x\<close>, \<open>round_even\<close> is off by at most one half, and so
  \<open>double_round\<close> has a relative error of at most \<open>2 powi - 53\<close>.
\<close>

lemma binade_small:
  assumes "x \<noteq> 0" "\<not> 1 \<le> \<bar>x\<bar>"
  shows "2 powi binade x \<le> \<bar>x\<bar> \<and> \<bar>x\<bar> < 2 powi (binade x + 1)"
proof -
  define y where "y = 1 / \<bar>x\<bar>"
  have y: "1 < y" using assms by (simp add: y_def)
  define m where "m = \<lceil>y\<rceil> - 1"
  have m1: "0 < m" using y by (simp add: m_def)
  have m2: "real_of_int m < y" unfolding m_def by linarith
  have m3: "y \<le> real_of_int m + 1" unfolding m_def by linarith
  have b: "1 \<le> bitlen m" using m1 by (simp add: bitlen_alt_def)
  define k where "k = nat (bitlen m - 1)"
  have k: "bitlen m = int k + 1" using b by (simp add: k_def)
  from bitlen_bounds [OF m1]
  have lo: "(2::int) ^ k \<le> m" and hi: "m < 2 ^ (Suc k)" by (simp_all add: k nat_add_distrib)
  have e: "binade x = - int k - 1" using assms k by (simp add: binade_def m_def y_def)
  have "real_of_int (2 ^ k) \<le> real_of_int m" using lo by (simp only: of_int_le_iff)
  then have "real_of_int (2 ^ k) < y" using m2 by (rule le_less_trans)
  then have "(2::real) ^ k < y" by (simp only: of_int_power of_int_numeral)
  then have 1: "\<bar>x\<bar> < 1 / 2 ^ k"
    using assms by (simp add: y_def field_simps)
  have "m + 1 \<le> 2 ^ Suc k" using hi by simp
  then have "real_of_int (m + 1) \<le> real_of_int (2 ^ Suc k)" by (simp only: of_int_le_iff)
  then have "real_of_int m + 1 \<le> 2 ^ Suc k" by (simp only: of_int_power of_int_numeral of_int_add of_int_1)
  with m3 have "y \<le> 2 ^ Suc k" by (rule order_trans)
  then have 2: "1 / 2 ^ Suc k \<le> \<bar>x\<bar>"
    using assms by (simp add: y_def field_simps)
  have p1: "(2::real) powi (- int k - 1) = 1 / 2 ^ Suc k"
    by (simp add: power_int_diff power_int_minus field_simps)
  have p2: "(2::real) powi (- int k - 1 + 1) = 1 / 2 ^ k"
    by (simp add: power_int_minus field_simps)
  show ?thesis using 1 2 by (simp only: e p1 p2 simp_thms)
qed

lemma binade_large:
  assumes "1 \<le> \<bar>x\<bar>"
  shows "2 powi binade x \<le> \<bar>x\<bar> \<and> \<bar>x\<bar> < 2 powi (binade x + 1)"
proof -
  define n where "n = \<lfloor>\<bar>x\<bar>\<rfloor>"
  have n1: "0 < n" using assms by (simp add: n_def)
  have n2: "real_of_int n \<le> \<bar>x\<bar>" unfolding n_def by linarith
  have n3: "\<bar>x\<bar> < real_of_int n + 1" unfolding n_def by linarith
  have b: "1 \<le> bitlen n" using n1 by (simp add: bitlen_alt_def)
  define k where "k = nat (bitlen n - 1)"
  have k: "bitlen n = int k + 1" using b by (simp add: k_def)
  from bitlen_bounds [OF n1]
  have lo: "(2::int) ^ k \<le> n" and hi: "n < 2 ^ (Suc k)" by (simp_all add: k nat_add_distrib)
  have e: "binade x = int k" using assms k by (simp add: binade_def n_def)
  have "real_of_int (2 ^ k) \<le> real_of_int n" using lo by (simp only: of_int_le_iff)
  then have "(2::real) ^ k \<le> real_of_int n" by (simp only: of_int_power of_int_numeral)
  then have 1: "(2::real) ^ k \<le> \<bar>x\<bar>" using n2 by (rule order_trans)
  have "n + 1 \<le> 2 ^ Suc k" using hi by simp
  then have "real_of_int (n + 1) \<le> real_of_int (2 ^ Suc k)" by (simp only: of_int_le_iff)
  then have "real_of_int n + 1 \<le> 2 ^ Suc k" by (simp only: of_int_power of_int_numeral of_int_add of_int_1)
  with n3 have 2: "\<bar>x\<bar> < 2 ^ Suc k" by (rule less_le_trans)
  have p1: "(2::real) powi (int k) = 2 ^ k" by simp
  have p2: "(2::real) powi (int k + 1) = 2 ^ Suc k" by (simp add: power_int_add)
  show ?thesis using 1 2 by (simp only: e p1 p2 simp_thms)
qed

lemma binade_bounds:
  "x \<noteq> 0 \<Longrightarrow> 2 powi binade x \<le> \<bar>x\<bar> \<and> \<bar>x\<bar> < 2 powi (binade x + 1)"
  using binade_small [of x] binade_large [of x] by blast

lemma round_even_error: "\<bar>real_of_int (round_even y) - y\<bar> \<le> 1/2"
proof -
  have "real_of_int \<lfloor>y\<rfloor> \<le> y" "y < real_of_int \<lfloor>y\<rfloor> + 1" by linarith+
  then show ?thesis
    by (auto simp add: round_even_def Let_def)
qed

lemma double_round_error: "\<bar>double_round x - x\<bar> \<le> \<bar>x\<bar> / 2 ^ 53"
proof (cases "x = 0")
  case True
  then show ?thesis by (simp add: double_round_def)
next
  case False
  define e where "e = binade x"
  define s :: real where "s = 2 powi (e - 52)"
  have s: "0 < s" by (simp add: s_def)
  define a where "a = real_of_int (round_even (x / s))"
  have "\<bar>a - x / s\<bar> \<le> 1/2" unfolding a_def by (rule round_even_error)
  then have "\<bar>a - x / s\<bar> * s \<le> 1/2 * s"
    using s by (simp only: mult_le_cancel_right_pos)
  moreover have "\<bar>a - x / s\<bar> * s = \<bar>a * s - x\<bar>"
  proof -
    have "\<bar>a - x / s\<bar> * s = \<bar>(a - x / s) * s\<bar>"
      using s by (simp add: abs_mult)
    also have "(a - x / s) * s = a * s - x"
      using s by (simp add: left_diff_distrib)
    finally show ?thesis .
  qed
  ultimately have "\<bar>a * s - x\<bar> \<le> 1/2 * s"
    by (simp only:)
  moreover have "double_round x = a * s"
    using False by (simp add: double_round_def e_def s_def a_def)
  ultimately have 1: "\<bar>double_round x - x\<bar> \<le> s / 2"
    by simp
  have "s = 2 powi e / 2 ^ 52"
    by (simp add: s_def power_int_diff)
  moreover have "2 powi e \<le> \<bar>x\<bar>" using binade_bounds [OF False] by (simp add: e_def)
  ultimately have "s / 2 \<le> \<bar>x\<bar> / 2 ^ 53" by (simp add: field_simps)
  with 1 show ?thesis by linarith
qed

text \<open>
  The halves of the integers up to 1024 are doubles: the centre, the half range and the
  distance of a sample from the centre are computed without a rounding error.
\<close>

lemma round_even_of_int: "round_even (real_of_int m) = m"
  by (simp add: round_even_def)

lemma double_round_half:
  assumes k: "\<bar>k\<bar> \<le> 1024"
  shows "double_round (real_of_int k / 2) = real_of_int k / 2"
proof (cases "k = 0")
  case True
  then show ?thesis by (simp add: double_round_def)
next
  case False
  define x where "x = real_of_int k / 2"
  define e where "e = binade x"
  have x0: "x \<noteq> 0" using False by (simp add: x_def)
  have "\<bar>x\<bar> \<le> 512" using k by (simp add: x_def abs_le_iff)
  moreover have "2 powi e \<le> \<bar>x\<bar>" using binade_bounds [OF x0] by (simp add: e_def)
  ultimately have "(2 :: real) powi e \<le> 2 powi 9" by simp
  then have e: "e \<le> 9" by (rule power_int_le_imp_le_exp [rotated]) simp_all
  define n where "n = nat (51 - e)"
  have n: "51 - e = int n" using e by (simp add: n_def)
  have "x / 2 powi (e - 52) = x * 2 powi (52 - e)"
    by (simp add: power_int_diff field_simps)
  also have "\<dots> = real_of_int k * 2 powi (51 - e)"
    by (simp add: x_def power_int_diff)
  also have "\<dots> = real_of_int (k * 2 ^ n)" by (simp add: n)
  finally have m: "x / 2 powi (e - 52) = real_of_int (k * 2 ^ n)" .
  have "double_round x = x / 2 powi (e - 52) * 2 powi (e - 52)"
    using x0 by (simp only: double_round_def e_def [symmetric] m round_even_of_int if_False)
  then show ?thesis by (simp add: x_def)
qed

subsection \<open>The least and the greatest sample\<close>

lemma Min_insert_min: "finite S \<Longrightarrow> Min (insert (min a x) S) = Min (insert a (insert x S))"
  for a x :: "'a :: linorder"
  by (cases "S = {}") (simp_all add: min.assoc)

lemma Max_insert_max: "finite S \<Longrightarrow> Max (insert (max a x) S) = Max (insert a (insert x S))"
  for a x :: "'a :: linorder"
  by (cases "S = {}") (simp_all add: max.assoc)

lemma foldl_min_max:
  "foldl (\<lambda>(mn, mx) x. (min mn x, max mx x)) (mn, mx) xs =
     (Min (insert mn (set xs)), Max (insert mx (set xs)))"
  for mn mx :: "'a :: linorder"
proof (induction xs arbitrary: mn mx)
  case Nil
  show ?case by simp
next
  case (Cons x xs)
  show ?case
    by (simp only: foldl_Cons prod.case Cons list.set Min_insert_min [OF finite_set]
        Max_insert_max [OF finite_set])
qed

lemma minMax_fold: "minMax buf = (Min (insert 255 (set buf)), Max (insert 0 (set buf)))"
proof -
  have "(\<lambda>(minVal :: u8, maxVal :: u8) sample.
        let minVal = (if sample < minVal then sample else minVal);
            maxVal = (if sample > maxVal then sample else maxVal)
        in (minVal, maxVal)) = (\<lambda>(mn, mx) x. (min mn x, max mx x))"
    by (auto simp add: fun_eq_iff Let_def min_def max_def)
  then show ?thesis by (simp only: minMax_def foldl_min_max)
qed

lemma minMax_eq: "buf \<noteq> [] \<Longrightarrow> minMax buf = (Min (set buf), Max (set buf))"
proof -
  assume ne: "buf \<noteq> []"
  have "Min (insert 255 (set buf)) = Min (set buf)"
  proof -
    have "Min (insert 255 (set buf)) = min 255 (Min (set buf))" using ne by simp
    moreover have "Min (set buf) \<le> (255 :: u8)"
    proof -
      have "(255 :: u8) = - 1" by simp
      then show ?thesis by (simp only: word_n1_ge)
    qed
    ultimately show ?thesis by (simp add: min_def)
  qed
  moreover have "Max (insert 0 (set buf)) = Max (set buf)"
    using ne by (simp add: max_def)
  ultimately show ?thesis by (simp only: minMax_fold)
qed

subsection \<open>The samples that are written\<close>

lemma clamp_code:
  "(if (if x < 0 then 0 else x) > 255 then 255 else (if x < 0 then 0 else x)) = clamp255 x"
  by (simp add: clamp255_def min_def max_def)

lemma double_tenth: "double_round 0.1 = 3602879701896397 / 36028797018963968"
  by code_simp

lemma halfRange_half: "halfRange buf = real_of_int (uint (Max (set buf)) - uint (Min (set buf))) / 2"
  by (simp add: halfRange_def)

lemma threshold: "(real_of_int k / 2 < double_round 0.1) = (real_of_int k / 2 < 0.1)"
proof (cases "k \<le> 0")
  case True
  then have "real_of_int k \<le> 0" by simp
  then show ?thesis by (simp add: double_tenth)
next
  case False
  then have "1 \<le> real_of_int k" by simp
  then show ?thesis by (simp add: double_tenth)
qed

lemma halfRange_threshold: "(halfRange buf < double_round 0.1) = (halfRange buf < 0.1)"
  by (simp only: halfRange_half threshold)

lemma normalizeAudio_eq:
  "normalizeAudio T buf =
     (if buf = [] \<or> halfRange buf < 0.1 then buf else map (rescale T buf) buf)"
proof (cases "buf = []")
  case True
  then show ?thesis by (simp add: normalizeAudio_def)
next
  case False
  have b: "0 \<le> uint w \<and> uint w \<le> 255" for w :: u8
    using uint_lt2p [of w] by simp
  have "\<bar>uint (Min (set buf)) + uint (Max (set buf))\<bar> \<le> 1024"
    using b [of "Min (set buf)"] b [of "Max (set buf)"] by linarith
  then have "double_round (real_of_int (uint (Min (set buf)) + uint (Max (set buf))) / 2)
      = real_of_int (uint (Min (set buf)) + uint (Max (set buf))) / 2"
    by (rule double_round_half)
  then have c: "double_round (real_of_int (uint (Min (set buf)) + uint (Max (set buf))) / 2.0)
      = center buf"
    by (simp add: center_def)
  have "\<bar>uint (Max (set buf)) - uint (Min (set buf))\<bar> \<le> 1024"
    using b [of "Min (set buf)"] b [of "Max (set buf)"] by linarith
  then have "double_round (real_of_int (uint (Max (set buf)) - uint (Min (set buf))) / 2)
      = real_of_int (uint (Max (set buf)) - uint (Min (set buf))) / 2"
    by (rule double_round_half)
  then have h: "double_round (real_of_int (uint (Max (set buf)) - uint (Min (set buf))) / 2.0)
      = halfRange buf"
    by (simp add: halfRange_def)
  have u: "real_of_int (uint s) = real (unat s)" for s :: u8
    by simp
  have d: "double_round (real (unat s) - center buf) = real (unat s) - center buf" for s :: u8
  proof -
    define k where "k = 2 * uint s - (uint (Min (set buf)) + uint (Max (set buf)))"
    have "\<bar>k\<bar> \<le> 1024"
      using b [of s] b [of "Min (set buf)"] b [of "Max (set buf)"] unfolding k_def by linarith
    then have "double_round (real_of_int k / 2) = real_of_int k / 2"
      by (rule double_round_half)
    moreover have "real_of_int k / 2 = real (unat s) - center buf"
      by (simp add: k_def center_def field_simps)
    ultimately show ?thesis by (simp only:)
  qed
  have "normalizeAudio T buf =
     (if halfRange buf < double_round 0.1 then buf
      else map (\<lambda>s. to_uint8 (clamp255 (double_round (128.0 +
             double_round ((real (unat s) - center buf) * double_round (T / halfRange buf)))))) buf)"
    using False
    by (simp only: normalizeAudio_def Let_def clamp_code minMax_eq [OF False] prod.case c h u d
        if_False)
  then show ?thesis using False by (simp add: rescale_def doubleValue_def halfRange_threshold)
qed

lemma halfRange_small:
  "buf \<noteq> [] \<Longrightarrow> (halfRange buf < 0.1) = (Max (set buf) = Min (set buf))"
proof -
  assume ne: "buf \<noteq> []"
  have le: "Min (set buf) \<le> Max (set buf)" using ne by simp
  show ?thesis
  proof (cases "Max (set buf) = Min (set buf)")
    case True then show ?thesis by (simp add: halfRange_def)
  next
    case False
    with le have "Min (set buf) < Max (set buf)" by simp
    then have "unat (Min (set buf)) < unat (Max (set buf))" by (simp add: word_less_nat_alt)
    then have "real (unat (Min (set buf))) + 1 \<le> real (unat (Max (set buf)))" by linarith
    then show ?thesis using False by (simp add: halfRange_def)
  qed
qed

lemma normalize_flat: "normalizeAudio T (replicate n v) = replicate n v"
proof (cases n)
  case 0 then show ?thesis by (simp add: normalizeAudio_def)
next
  case (Suc m)
  then have "set (replicate n v) = {v}" by (simp only: set_replicate_Suc)
  then have "halfRange (replicate n v) < 0.1" by (simp add: halfRange_def)
  then show ?thesis by (simp add: normalizeAudio_eq)
qed

lemma clamp255_range: "0 \<le> clamp255 x \<and> clamp255 x \<le> 255"
  by (simp add: clamp255_def)

subsection \<open>The distance from the linear map\<close>

text \<open>
  The distance of a sample from the centre is at most the half range, so the exact
  product is at most the target amplitude in magnitude; each of the three roundings adds
  a relative error of at most \<open>2 powi - 53\<close>.
\<close>

lemma clamp255_close: "\<bar>clamp255 x - clamp255 y\<bar> \<le> \<bar>x - y\<bar>"
  by (simp add: clamp255_def min_def max_def)

lemma floor_close: "\<bar>x - y\<bar> < 1 \<Longrightarrow> \<bar>\<lfloor>x\<rfloor> - \<lfloor>y :: real\<rfloor>\<bar> \<le> 1"
  by linarith

lemma rescale_floor: "int (unat (rescale T buf s)) = \<lfloor>clamp255 (doubleValue T buf s)\<rfloor>"
proof -
  define v where "v = clamp255 (doubleValue T buf s)"
  have v: "0 \<le> v" "v \<le> 255" using clamp255_range [of "doubleValue T buf s"] by (simp_all add: v_def)
  then have f: "0 \<le> \<lfloor>v\<rfloor>" "\<lfloor>v\<rfloor> \<le> 255" by (simp_all add: le_floor_iff floor_le_iff)
  have "rescale T buf s = word_of_int \<lfloor>v\<rfloor>" using v by (simp add: rescale_def to_uint8_def v_def)
  then have "int (unat (rescale T buf s)) = \<lfloor>v\<rfloor> mod 256"
    by (simp add: unat_eq_nat_uint uint_word_of_int)
  also have "\<dots> = \<lfloor>v\<rfloor>" using f by simp
  finally show ?thesis by (simp add: v_def)
qed

lemma centered_le:
  assumes "s \<in> set buf"
  shows "\<bar>real (unat s) - center buf\<bar> \<le> halfRange buf"
proof -
  define a b x where "a = real (unat (Min (set buf)))" and "b = real (unat (Max (set buf)))"
    and "x = real (unat s)"
  have "Min (set buf) \<le> s" "s \<le> Max (set buf)" using assms by simp_all
  then have "unat (Min (set buf)) \<le> unat s" "unat s \<le> unat (Max (set buf))"
    by (simp_all add: word_le_nat_alt)
  then have "a \<le> x" "x \<le> b"
    unfolding a_def b_def x_def by (simp_all only: of_nat_le_iff)
  then have "\<bar>x - (a + b) / 2\<bar> \<le> (b - a) / 2" by (simp add: abs_le_iff field_simps)
  then show ?thesis by (simp only: center_def halfRange_def a_def b_def x_def)
qed

lemma three_roundings:
  fixes d q B :: real
  assumes a: "\<bar>d * q\<bar> \<le> B"
  shows "\<bar>double_round (128 + double_round (d * double_round q)) - (128 + d * q)\<bar>
           \<le> (B + 32) / 2 ^ 51"
proof -
  define q' where "q' = double_round q"
  define p where "p = d * q'"
  define p' where "p' = double_round p"
  define r where "r = 128 + p'"
  define r' where "r' = double_round r"
  define a where "a = d * q"
  define u :: real where "u = 1 / 2 ^ 53"
  have u: "u = 1 / 9007199254740992" by (simp add: u_def)
  have aB: "\<bar>a\<bar> \<le> B" using assms by (simp add: a_def)
  have B: "0 \<le> B" using aB by linarith
  have "\<bar>p - a\<bar> = \<bar>d\<bar> * \<bar>q' - q\<bar>"
    by (simp add: p_def a_def abs_mult [symmetric] right_diff_distrib)
  also have "\<dots> \<le> \<bar>d\<bar> * (\<bar>q\<bar> / 2 ^ 53)"
    unfolding q'_def by (rule mult_left_mono [OF double_round_error]) simp
  also have "\<dots> = \<bar>a\<bar> * u" by (simp add: abs_mult a_def u_def)
  finally have 1: "\<bar>p - a\<bar> \<le> \<bar>a\<bar> * u" .
  have 3: "\<bar>p' - p\<bar> \<le> \<bar>p\<bar> * u"
    using double_round_error [of p] by (simp add: p'_def u_def)
  have 5: "\<bar>r' - r\<bar> \<le> \<bar>r\<bar> * u"
    using double_round_error [of r] by (simp add: r'_def u_def)
  have e1: "\<bar>p - a\<bar> \<le> B / 9007199254740992" using 1 aB unfolding u by linarith
  have 2: "\<bar>p\<bar> \<le> 9 / 8 * B" using e1 aB B by linarith
  have e3: "\<bar>p' - p\<bar> \<le> (9 / 8 * B) / 9007199254740992" using 3 2 unfolding u by linarith
  have 4: "\<bar>p'\<bar> \<le> 81 / 64 * B" using 2 e3 B by linarith
  have 6: "\<bar>r\<bar> \<le> 128 + 81 / 64 * B" using 4 unfolding r_def by linarith
  have "\<bar>r\<bar> * u \<le> (128 + 81 / 64 * B) * u"
    using 6 by (rule mult_right_mono) (simp add: u)
  with 5 have "\<bar>r' - r\<bar> \<le> (128 + 81 / 64 * B) * u" by (rule order_trans)
  then have e5: "\<bar>r' - r\<bar> \<le> (128 + 81 / 64 * B) / 9007199254740992" by (simp add: u)
  have "\<bar>r' - (128 + a)\<bar> \<le> \<bar>r' - r\<bar> + \<bar>p' - p\<bar> + \<bar>p - a\<bar>"
    unfolding r_def by linarith
  also have "\<dots> \<le> (B + 32) / 2251799813685248"
  proof -
    define x y z where "x = \<bar>r' - r\<bar>" and "y = \<bar>p' - p\<bar>" and "z = \<bar>p - a\<bar>"
    have "x \<le> (128 + 81 / 64 * B) / 9007199254740992" "y \<le> 9 / 8 * B / 9007199254740992"
      "z \<le> B / 9007199254740992"
      using e1 e3 e5 by (simp_all only: x_def y_def z_def)
    then have "x + y + z \<le> (B + 32) / 2251799813685248" using B by (simp add: field_simps)
    then show ?thesis by (simp only: x_def y_def z_def)
  qed
  finally show ?thesis by (simp add: r'_def r_def p'_def p_def q'_def a_def)
qed

lemma double_value_error:
  assumes s: "s \<in> set buf" and h: "0.1 \<le> halfRange buf"
  shows "\<bar>doubleValue T buf s - linearValue T buf s\<bar> \<le> (\<bar>T\<bar> + 32) / 2 ^ 51"
proof -
  define d where "d = real (unat s) - center buf"
  define H where "H = halfRange buf"
  have h0: "0 < H" using h by (simp add: H_def)
  have dH: "\<bar>d\<bar> \<le> H" using centered_le [OF s] by (simp only: d_def H_def)
  have "\<bar>d * (T / H)\<bar> = \<bar>d\<bar> * \<bar>T\<bar> / H"
    using h0 by (simp add: abs_mult)
  also have "\<dots> \<le> H * \<bar>T\<bar> / H"
    by (rule divide_right_mono [OF mult_right_mono [OF dH]]) (use h0 in simp_all)
  also have "\<dots> = \<bar>T\<bar>" using h0 by simp
  finally have "\<bar>d * (T / H)\<bar> \<le> \<bar>T\<bar>" .
  from three_roundings [OF this] show ?thesis
    by (simp only: doubleValue_def linearValue_def d_def H_def)
qed

lemma rescale_close:
  assumes s: "s \<in> set buf" and h: "0.1 \<le> halfRange buf" and T: "\<bar>T\<bar> \<le> 2 ^ 31"
  shows "\<bar>int (unat (rescale T buf s)) - \<lfloor>clamp255 (linearValue T buf s)\<rfloor>\<bar> \<le> 1"
proof -
  have "\<bar>doubleValue T buf s - linearValue T buf s\<bar> \<le> (\<bar>T\<bar> + 32) / 2 ^ 51"
    using s h by (rule double_value_error)
  also have "\<dots> < 1" using T by simp
  finally have "\<bar>doubleValue T buf s - linearValue T buf s\<bar> < 1" .
  then have "\<bar>clamp255 (doubleValue T buf s) - clamp255 (linearValue T buf s)\<bar> < 1"
    using clamp255_close [of "doubleValue T buf s" "linearValue T buf s"] by linarith
  then show ?thesis by (simp only: rescale_floor floor_close)
qed

subsection \<open>The buffer 0, 81, 40 at the target amplitude 95\<close>

text \<open>
  The centre and the half range are both 40.5. The quotient \<open>95 / 40.5\<close> is no double and
  is rounded down; the product with \<open>- 40.5\<close> is rounded to a double above \<open>- 95\<close>; the sum
  with 128 is the double below 33.
\<close>

lemma double_scale_example:
  "double_round (95 / (81 / 2)) = 5281999562965397 / 2251799813685248"
  by code_simp

lemma double_product_examples:
  "double_round ((real (unat (0 :: u8)) - 81 / 2) * (5281999562965397 / 2251799813685248))
     = - (6685030696878081 / 70368744177664)"
  "double_round ((real (unat (81 :: u8)) - 81 / 2) * (5281999562965397 / 2251799813685248))
     = 6685030696878081 / 70368744177664"
  "double_round ((real (unat (40 :: u8)) - 81 / 2) * (5281999562965397 / 2251799813685248))
     = - (5281999562965397 / 4503599627370496)"
  by code_simp+

lemma double_sum_examples:
  "double_round (128 + - (6685030696878081 / 70368744177664))
     = 2322168557862911 / 70368744177664"
  "double_round (128 + 6685030696878081 / 70368744177664) = 223"
  "double_round (128 + - (5281999562965397 / 4503599627370496))
     = 4462334005784829 / 35184372088832"
  by code_simp+

lemma example_range: "halfRange [0, 81, 40] = 81 / 2" "center [0, 81, 40] = 81 / 2"
  by (simp_all add: halfRange_def center_def)

lemma doubleValue_examples:
  "doubleValue 95 [0, 81, 40] 0 = 2322168557862911 / 70368744177664"
  "doubleValue 95 [0, 81, 40] 81 = 223"
  "doubleValue 95 [0, 81, 40] 40 = 4462334005784829 / 35184372088832"
  by (simp_all only: doubleValue_def example_range double_scale_example
      double_product_examples double_sum_examples)

lemma linearValue_examples:
  "linearValue 95 [0, 81, 40] 0 = 33"
  "linearValue 95 [0, 81, 40] 81 = 223"
  "linearValue 95 [0, 81, 40] 40 = 10273 / 81"
  by (simp_all add: linearValue_def example_range)

lemma rescale_examples:
  "rescale 95 [0, 81, 40] 0 = 32"
  "rescale 95 [0, 81, 40] 81 = 223"
  "rescale 95 [0, 81, 40] 40 = 126"
  by (simp_all add: rescale_def doubleValue_examples clamp255_def to_uint8_def)

text \<open>
  C8 (as amended): for every sample buffer and target amplitude, if the half range
  \<open>(max - min) / 2\<close> of the buffer is below 0.1, as it is for a flat buffer, then
  \<open>normalizeAudio\<close> returns the buffer unchanged (so it does for the empty buffer), and
  there is no error to report. Otherwise every sample \<open>s\<close> becomes \<open>rescale\<close> of it: the
  linear map of the claim (the distance of \<open>s\<close> from the centre \<open>(min + max) / 2\<close>,
  multiplied by the target amplitude divided by the half range, and 128 added) is
  evaluated in double arithmetic, with a rounding after the quotient, after the product
  and after the sum, the result is clamped to the range from 0 to 255, and its fraction
  is cut off. The rounded value is within \<open>(\<bar>targetAmplitude\<bar> + 32) / 2 ^ 51\<close> of the
  exact linear value; so, for a target amplitude of magnitude at most \<open>2 ^ 31\<close>, the
  sample written is the clamped exact linear value with its fraction cut off, or differs
  from it by one.
\<close>

theorem C8_normalize:
  "normalizeAudio targetAmplitude buf =
     (if buf = [] \<or> halfRange buf < 0.1 then buf
      else map (rescale targetAmplitude buf) buf)
   \<and> normalizeAudio targetAmplitude (replicate n v) = replicate n v
   \<and> int (unat (rescale targetAmplitude buf s)) = \<lfloor>clamp255 (doubleValue targetAmplitude buf s)\<rfloor>
   \<and> (s \<in> set buf \<and> 0.1 \<le> halfRange buf \<longrightarrow>
        \<bar>doubleValue targetAmplitude buf s - linearValue targetAmplitude buf s\<bar>
          \<le> (\<bar>targetAmplitude\<bar> + 32) / 2 ^ 51)
   \<and> (s \<in> set buf \<and> 0.1 \<le> halfRange buf \<and> \<bar>targetAmplitude\<bar> \<le> 2 ^ 31 \<longrightarrow>
        \<bar>int (unat (rescale targetAmplitude buf s))
           - \<lfloor>clamp255 (linearValue targetAmplitude buf s)\<rfloor>\<bar> \<le> 1)
   \<and> 0 \<le> clamp255 x \<and> clamp255 x \<le> 255"
  using normalizeAudio_eq [of targetAmplitude buf] normalize_flat [of targetAmplitude n v]
    rescale_floor [of targetAmplitude buf s] double_value_error [of s buf targetAmplitude]
    rescale_close [of s buf targetAmplitude] clamp255_range [of x]
  by blast

text \<open>
  On the buffer 0, 81, 40 with the target amplitude 95 all premises hold; the samples
  written are 32, 223 and 126, and the first is one below the exact linear value 33. A
  flat buffer is left as it is.
\<close>

theorem C8_normalize_witness:
  "normalizeAudio 95 [0, 81, 40] = [32, 223, 126]
   \<and> normalizeAudio 95 [129, 129, 129] = [129, 129, 129]
   \<and> \<bar>doubleValue 95 [0, 81, 40] 0 - linearValue 95 [0, 81, 40] 0\<bar> \<le> (\<bar>95\<bar> + 32) / 2 ^ 51
   \<and> \<bar>int (unat (rescale 95 [0, 81, 40] 0)) - \<lfloor>clamp255 (linearValue 95 [0, 81, 40] 0)\<rfloor>\<bar> \<le> 1"
proof -
  note t = C8_normalize [of 95 "[0, 81, 40]" 0 0 0 0]
  have h: "(0 :: u8) \<in> set [0, 81, 40] \<and> 0.1 \<le> halfRange [0, 81, 40] \<and> \<bar>95 :: real\<bar> \<le> 2 ^ 31"
    by (simp add: example_range)
  have "normalizeAudio 95 [0, 81, 40] = map (rescale 95 [0, 81, 40]) [0, 81, 40]"
    using t h by (simp only: list.simps not_le [symmetric] simp_thms if_False)
  then have "normalizeAudio 95 [0, 81, 40] = [32, 223, 126]"
    by (simp add: rescale_examples)
  moreover have "normalizeAudio 95 [129, 129, 129] = [129, 129, 129]"
    using C8_normalize [of 95 "[]" 3 129 0 0]
    by (simp add: eval_nat_numeral)
  moreover have "\<bar>doubleValue 95 [0, 81, 40] 0 - linearValue 95 [0, 81, 40] 0\<bar> \<le> (\<bar>95\<bar> + 32) / 2 ^ 51"
    using t h by blast
  moreover have "\<bar>int (unat (rescale 95 [0, 81, 40] 0)) - \<lfloor>clamp255 (linearValue 95 [0, 81, 40] 0)\<rfloor>\<bar> \<le> 1"
    using t h by blast
  ultimately show ?thesis by (simp only: simp_thms)
qed

text \<open>
  The claim as it was stated, with the exact linear map: the sample 0 of the buffer
  0, 81, 40 is at distance 40.5, the half range, below the centre, and the linear map
  sends it to \<open>128 - 95 = 33\<close>. The code writes 32.
\<close>

theorem C8_counterexample:
  "0.1 \<le> halfRange [0, 81, 40]
   \<and> normalizeAudio 95 [0, 81, 40] = [32, 223, 126]
   \<and> map (\<lambda>s. to_uint8 (clamp255 (linearValue 95 [0, 81, 40] s))) [0, 81, 40] = [33, 223, 126]"
  by (simp add: normalizeAudio_eq example_range rescale_examples linearValue_examples
      clamp255_def to_uint8_def)

end
